theory Spec2Isabelle
  imports Complex_Main "HOL-Library.AList" "HOL-Library.Multiset"
begin

section \<open>Data model\<close>

text \<open>
  The program (\<^verbatim>\<open>text_gen.py\<close>, Python 2) works on dictionaries, integers, floats and
  strings, and reads the process-wide random source.

  \<^item> A dictionary is an association list with pairwise distinct keys. The order of the
    list is the order in which \<^verbatim>\<open>for item in d\<close> enumerates the dictionary. Python
    leaves that order unspecified, so every statement that depends on it is made for an
    arbitrary order. A new key is put at the end, an existing key keeps its place.
  \<^item> Counts are Python integers (\<open>int\<close>). Probabilities are Python floats; they are
    modelled by exact rationals, so rounding is outside the model.
  \<^item> \<^verbatim>\<open>random.random()\<close> is a sequence \<open>rnd :: nat \<Rightarrow> rat\<close> of draws; a counter says
    how many draws were consumed so far.
  \<^item> An exception is a value of type \<open>error\<close>; a function that can raise returns
    \<open>error + 'a\<close>.
\<close>

datatype error = AssertionError | KeyError | ZeroDivisionError

type_synonym ('k, 'v) dict = "('k \<times> 'v) list"

definition has_key :: "('k, 'v) dict \<Rightarrow> 'k \<Rightarrow> bool" where
  "has_key d k = (map_of d k \<noteq> None)"

definition dict_get :: "('k, 'v) dict \<Rightarrow> 'k \<Rightarrow> error + 'v" where
  "dict_get d k = (case map_of d k of None \<Rightarrow> Inl KeyError | Some v \<Rightarrow> Inr v)"

definition dict_set :: "'k \<Rightarrow> 'v \<Rightarrow> ('k, 'v) dict \<Rightarrow> ('k, 'v) dict" where
  "dict_set k v d = AList.update k v d"

type_synonym distribution = "(string, rat) dict"

type_synonym bigram_model = "(string, distribution) dict"

type_synonym trigram_model = "(string \<times> string, distribution) dict"

section \<open>Sampling and normalisation\<close>

text \<open>
  \<^verbatim>\<open>select_random\<close>: the assertion on the sum of the values, then the cumulative-sum
  loop over the items in enumeration order, then the failing assertion after the loop.
  The draw \<open>r\<close> is the value of \<^verbatim>\<open>random.random()\<close>.
\<close>

fun select_loop :: "rat \<Rightarrow> rat \<Rightarrow> ('k, rat) dict \<Rightarrow> error + 'k" where
  "select_loop r tot [] = Inl AssertionError"
| "select_loop r tot ((item, p) # rest) =
     (if r < tot + p then Inr item else select_loop r (tot + p) rest)"

definition select_random :: "('k, rat) dict \<Rightarrow> rat \<Rightarrow> error + 'k" where
  "select_random distribution r =
     (if \<bar>sum_list (map snd distribution) - 1\<bar> < 1 / 1000000
      then select_loop r 0 distribution
      else Inl AssertionError)"

text \<open>
  \<^verbatim>\<open>counts_to_probabilities\<close>: the first loop adds the counts up, the second stores
  \<^verbatim>\<open>counts[item] / float(total)\<close> for each item, raising \<^verbatim>\<open>ZeroDivisionError\<close> at the
  first item when the total is zero. On an empty dictionary neither loop body runs.
\<close>

fun count_total :: "('k, int) dict \<Rightarrow> int \<Rightarrow> int" where
  "count_total [] tot = tot"
| "count_total ((item, c) # rest) tot = count_total rest (tot + c)"

fun divide_loop :: "int \<Rightarrow> ('k, int) dict \<Rightarrow> ('k, rat) dict \<Rightarrow> error + ('k, rat) dict" where
  "divide_loop tot [] probabilities = Inr probabilities"
| "divide_loop tot ((item, c) # rest) probabilities =
     (if tot = 0 then Inl ZeroDivisionError
      else divide_loop tot rest (dict_set item (of_int c / of_int tot) probabilities))"

definition counts_to_probabilities :: "('k, int) dict \<Rightarrow> error + ('k, rat) dict" where
  "counts_to_probabilities counts = divide_loop (count_total counts 0) counts []"

section \<open>Model construction\<close>

fun count_words :: "string list \<Rightarrow> (string, int) dict \<Rightarrow> (string, int) dict" where
  "count_words [] unigrams = unigrams"
| "count_words (word # rest) unigrams =
     count_words rest
       (case map_of unigrams word of
          Some c \<Rightarrow> dict_set word (c + 1) unigrams
        | None \<Rightarrow> dict_set word 1 unigrams)"

definition calculate_unigrams :: "string list \<Rightarrow> error + distribution" where
  "calculate_unigrams word_list = counts_to_probabilities (count_words word_list [])"

text \<open>
  \<^verbatim>\<open>calculate_bigrams\<close> keeps two dictionaries: \<open>bigrams\<close>, the counts per context, and
  \<open>tmp\<close>, the distributions. For each adjacent pair it makes sure the context has a
  count table, counts the pair, and stores the normalisation of the context's current
  table in \<open>tmp\<close>, overwriting the previous one. It returns \<open>tmp\<close>.
\<close>

type_synonym bigram_counts = "(string, (string, int) dict) dict"

definition bigram_step ::
  "bigram_counts \<times> bigram_model \<Rightarrow> string \<times> string \<Rightarrow> error + bigram_counts \<times> bigram_model" where
  "bigram_step st word =
     (let bigrams = fst st; tmp = snd st; w0 = fst word; w1 = snd word;
          bigrams1 = (if \<not> has_key bigrams w0 then dict_set w0 [] bigrams else bigrams);
          table = (case map_of bigrams1 w0 of Some t \<Rightarrow> t | None \<Rightarrow> []);
          table' = (if \<not> has_key table w1 then dict_set w1 1 table
                    else dict_set w1 ((case map_of table w1 of Some c \<Rightarrow> c | None \<Rightarrow> 0) + 1) table);
          bigrams2 = dict_set w0 table' bigrams1
      in case counts_to_probabilities table' of
           Inl e \<Rightarrow> Inl e
         | Inr probs \<Rightarrow> Inr (bigrams2, dict_set w0 probs tmp))"

fun bigram_loop ::
  "bigram_counts \<times> bigram_model \<Rightarrow> (string \<times> string) list \<Rightarrow> error + bigram_counts \<times> bigram_model" where
  "bigram_loop st [] = Inr st"
| "bigram_loop st (word # rest) =
     (case bigram_step st word of Inl e \<Rightarrow> Inl e | Inr st' \<Rightarrow> bigram_loop st' rest)"

definition calculate_bigrams :: "string list \<Rightarrow> error + bigram_model" where
  "calculate_bigrams word_list =
     (case bigram_loop ([], []) (zip word_list (drop 1 word_list)) of
        Inl e \<Rightarrow> Inl e
      | Inr st \<Rightarrow> Inr (snd st))"

text \<open>\<^verbatim>\<open>calculate_trigrams\<close>: the same with the pair of the first two words as context.\<close>

type_synonym trigram_counts = "(string \<times> string, (string, int) dict) dict"

definition trigram_step ::
  "trigram_counts \<times> trigram_model \<Rightarrow> string \<times> string \<times> string
     \<Rightarrow> error + trigram_counts \<times> trigram_model" where
  "trigram_step st word =
     (let trigrams = fst st; tmp = snd st;
          ctx = (fst word, fst (snd word)); w2 = snd (snd word);
          table' = (case map_of trigrams ctx of
                      None \<Rightarrow> dict_set w2 1 []
                    | Some table \<Rightarrow>
                        (case map_of table w2 of
                           None \<Rightarrow> dict_set w2 1 table
                         | Some c \<Rightarrow> dict_set w2 (c + 1) table));
          trigrams' = dict_set ctx table' trigrams
      in case counts_to_probabilities table' of
           Inl e \<Rightarrow> Inl e
         | Inr probs \<Rightarrow> Inr (trigrams', dict_set ctx probs tmp))"

fun trigram_loop ::
  "trigram_counts \<times> trigram_model \<Rightarrow> (string \<times> string \<times> string) list
     \<Rightarrow> error + trigram_counts \<times> trigram_model" where
  "trigram_loop st [] = Inr st"
| "trigram_loop st (word # rest) =
     (case trigram_step st word of Inl e \<Rightarrow> Inl e | Inr st' \<Rightarrow> trigram_loop st' rest)"

definition calculate_trigrams :: "string list \<Rightarrow> error + trigram_model" where
  "calculate_trigrams word_list =
     (case trigram_loop ([], [])
             (zip word_list (zip (drop 1 word_list) (drop 2 word_list))) of
        Inl e \<Rightarrow> Inl e
      | Inr st \<Rightarrow> Inr (snd st))"

section \<open>Text generation\<close>

text \<open>
  Strings. Whitespace is space, tab, line feed, vertical tab, form feed and carriage
  return. \<^verbatim>\<open>str.rstrip()\<close> removes the trailing whitespace; \<^verbatim>\<open>str.split()\<close>, which
  \<^verbatim>\<open>text_to_list\<close> uses to cut a text into words, returns the maximal runs of
  non-whitespace characters.
\<close>

definition is_space :: "char \<Rightarrow> bool" where
  "is_space c = (c \<in> set [CHR '' '', CHR 0x09, CHR 0x0A, CHR 0x0B, CHR 0x0C, CHR 0x0D])"

definition rstrip :: "string \<Rightarrow> string" where
  "rstrip s = rev (dropWhile is_space (rev s))"

fun split_loop :: "string \<Rightarrow> string \<Rightarrow> string list" where
  "split_loop cur [] = (if cur = [] then [] else [cur])"
| "split_loop cur (c # cs) =
     (if is_space c then (if cur = [] then split_loop [] cs else cur # split_loop [] cs)
      else split_loop (cur @ [c]) cs)"

definition split :: "string \<Rightarrow> string list" where
  "split s = split_loop [] s"

text \<open>
  \<^verbatim>\<open>random_unigram_text\<close>: \<open>range(num_words)\<close> is empty for \<open>num_words \<le> 0\<close>, so the loop
  runs \<open>nat num_words\<close> times. \<open>k\<close> counts the draws consumed.
\<close>

fun unigram_text_loop ::
  "distribution \<Rightarrow> (nat \<Rightarrow> rat) \<Rightarrow> nat \<Rightarrow> nat \<Rightarrow> string \<Rightarrow> error + string" where
  "unigram_text_loop unigrams rnd k 0 result = Inr result"
| "unigram_text_loop unigrams rnd k (Suc n) result =
     (case select_random unigrams (rnd k) of
        Inl e \<Rightarrow> Inl e
      | Inr next_word \<Rightarrow>
          unigram_text_loop unigrams rnd (Suc k) n (result @ next_word @ '' ''))"

definition random_unigram_text :: "distribution \<Rightarrow> int \<Rightarrow> (nat \<Rightarrow> rat) \<Rightarrow> error + string" where
  "random_unigram_text unigrams num_words rnd =
     (case unigram_text_loop unigrams rnd 0 (nat num_words) [] of
        Inl e \<Rightarrow> Inl e
      | Inr result \<Rightarrow> Inr (rstrip result))"

text \<open>
  \<^verbatim>\<open>random_bigram_text\<close>: one sample from the seed's distribution before the loop, then
  \<open>xrange(num_words - 2)\<close> iterations, each sampling from the distribution of the word
  sampled last.
\<close>

fun bigram_text_loop ::
  "bigram_model \<Rightarrow> (nat \<Rightarrow> rat) \<Rightarrow> nat \<Rightarrow> nat \<Rightarrow> string \<Rightarrow> string \<Rightarrow> error + string" where
  "bigram_text_loop bigrams rnd k 0 next_word result = Inr result"
| "bigram_text_loop bigrams rnd k (Suc n) next_word result =
     (case dict_get bigrams next_word of
        Inl e \<Rightarrow> Inl e
      | Inr distr \<Rightarrow>
          (case select_random distr (rnd k) of
             Inl e \<Rightarrow> Inl e
           | Inr next_word' \<Rightarrow>
               bigram_text_loop bigrams rnd (Suc k) n next_word' (result @ next_word' @ '' '')))"

definition random_bigram_text ::
  "string \<Rightarrow> bigram_model \<Rightarrow> int \<Rightarrow> (nat \<Rightarrow> rat) \<Rightarrow> error + string" where
  "random_bigram_text first_word bigrams num_words rnd =
     (case dict_get bigrams first_word of
        Inl e \<Rightarrow> Inl e
      | Inr distr \<Rightarrow>
          (case select_random distr (rnd 0) of
             Inl e \<Rightarrow> Inl e
           | Inr next_word \<Rightarrow>
               (case bigram_text_loop bigrams rnd 1 (nat (num_words - 2)) next_word
                       (first_word @ '' '' @ next_word @ '' '') of
                  Inl e \<Rightarrow> Inl e
                | Inr result \<Rightarrow> Inr (rstrip result))))"

text \<open>
  \<^verbatim>\<open>random_trigram_text\<close>. Before the loop the two seed words are written to the result
  and one word is sampled from \<open>trigrams[(first_word, second_word)]\<close>, a plain lookup.
  Each iteration shifts the context (\<open>first_word := second_word\<close>,
  \<open>second_word := next_word\<close>), samples by \<open>trigram_next\<close> (the if/else of the loop body)
  and appends the sampled word.
\<close>

definition trigram_next ::
  "bigram_model \<Rightarrow> trigram_model \<Rightarrow> string \<Rightarrow> string \<Rightarrow> rat \<Rightarrow> error + string" where
  "trigram_next bigrams trigrams first_word second_word r =
     (if has_key trigrams (first_word, second_word)
      then (case dict_get trigrams (first_word, second_word) of
              Inl e \<Rightarrow> Inl e
            | Inr distr \<Rightarrow> select_random distr r)
      else (case dict_get bigrams first_word of
              Inl e \<Rightarrow> Inl e
            | Inr distr \<Rightarrow> select_random distr r))"

fun trigram_text_loop ::
  "bigram_model \<Rightarrow> trigram_model \<Rightarrow> (nat \<Rightarrow> rat) \<Rightarrow> nat \<Rightarrow> nat
     \<Rightarrow> string \<Rightarrow> string \<Rightarrow> string \<Rightarrow> string \<Rightarrow> error + string" where
  "trigram_text_loop bigrams trigrams rnd k 0 first_word second_word next_word result =
     Inr result"
| "trigram_text_loop bigrams trigrams rnd k (Suc n) first_word second_word next_word result =
     (case trigram_next bigrams trigrams second_word next_word (rnd k) of
        Inl e \<Rightarrow> Inl e
      | Inr next_word' \<Rightarrow>
          trigram_text_loop bigrams trigrams rnd (Suc k) n second_word next_word next_word'
            (result @ next_word' @ '' ''))"

definition random_trigram_text ::
  "string \<Rightarrow> string \<Rightarrow> bigram_model \<Rightarrow> trigram_model \<Rightarrow> int \<Rightarrow> (nat \<Rightarrow> rat)
     \<Rightarrow> error + string" where
  "random_trigram_text first_word second_word bigrams trigrams num_words rnd =
     (case dict_get trigrams (first_word, second_word) of
        Inl e \<Rightarrow> Inl e
      | Inr distr \<Rightarrow>
          (case select_random distr (rnd 0) of
             Inl e \<Rightarrow> Inl e
           | Inr next_word \<Rightarrow>
               (case trigram_text_loop bigrams trigrams rnd 1 (nat (num_words - 2))
                       first_word second_word next_word
                       (first_word @ '' '' @ second_word @ '' '') of
                  Inl e \<Rightarrow> Inl e
                | Inr result \<Rightarrow> Inr (rstrip result))))"

section \<open>The words of a generated text\<close>

text \<open>
  Every generator builds its result by \<^verbatim>\<open>result += word + " "\<close> and returns
  \<^verbatim>\<open>result.rstrip()\<close>. The functions below are the same loops with the result kept as
  the list of the words appended so far; \<open>join_words\<close> gives back the string the code
  holds, \<open>render\<close> the string it returns (lemmas \<open>unigram_text_words\<close>,
  \<open>bigram_text_words\<close>, \<open>trigram_text_words\<close>). When every word is a word in the sense
  of \<open>split\<close> (not empty, no whitespace in it), splitting the returned string gives the
  list back (lemma \<open>split_render\<close>).
\<close>

definition join_words :: "string list \<Rightarrow> string" where
  "join_words ws = concat (map (\<lambda>w. w @ '' '') ws)"

definition render :: "string list \<Rightarrow> string" where
  "render ws = rstrip (join_words ws)"

definition is_word :: "string \<Rightarrow> bool" where
  "is_word w = (w \<noteq> [] \<and> (\<forall>c \<in> set w. \<not> is_space c))"

fun unigram_words_loop ::
  "distribution \<Rightarrow> (nat \<Rightarrow> rat) \<Rightarrow> nat \<Rightarrow> nat \<Rightarrow> string list \<Rightarrow> error + string list" where
  "unigram_words_loop unigrams rnd k 0 result = Inr result"
| "unigram_words_loop unigrams rnd k (Suc n) result =
     (case select_random unigrams (rnd k) of
        Inl e \<Rightarrow> Inl e
      | Inr next_word \<Rightarrow> unigram_words_loop unigrams rnd (Suc k) n (result @ [next_word]))"

definition random_unigram_words ::
  "distribution \<Rightarrow> int \<Rightarrow> (nat \<Rightarrow> rat) \<Rightarrow> error + string list" where
  "random_unigram_words unigrams num_words rnd =
     unigram_words_loop unigrams rnd 0 (nat num_words) []"

fun bigram_words_loop ::
  "bigram_model \<Rightarrow> (nat \<Rightarrow> rat) \<Rightarrow> nat \<Rightarrow> nat \<Rightarrow> string \<Rightarrow> string list
     \<Rightarrow> error + string list" where
  "bigram_words_loop bigrams rnd k 0 next_word result = Inr result"
| "bigram_words_loop bigrams rnd k (Suc n) next_word result =
     (case dict_get bigrams next_word of
        Inl e \<Rightarrow> Inl e
      | Inr distr \<Rightarrow>
          (case select_random distr (rnd k) of
             Inl e \<Rightarrow> Inl e
           | Inr next_word' \<Rightarrow>
               bigram_words_loop bigrams rnd (Suc k) n next_word' (result @ [next_word'])))"

definition random_bigram_words ::
  "string \<Rightarrow> bigram_model \<Rightarrow> int \<Rightarrow> (nat \<Rightarrow> rat) \<Rightarrow> error + string list" where
  "random_bigram_words first_word bigrams num_words rnd =
     (case dict_get bigrams first_word of
        Inl e \<Rightarrow> Inl e
      | Inr distr \<Rightarrow>
          (case select_random distr (rnd 0) of
             Inl e \<Rightarrow> Inl e
           | Inr next_word \<Rightarrow>
               bigram_words_loop bigrams rnd 1 (nat (num_words - 2)) next_word
                 [first_word, next_word]))"

fun trigram_words_loop ::
  "bigram_model \<Rightarrow> trigram_model \<Rightarrow> (nat \<Rightarrow> rat) \<Rightarrow> nat \<Rightarrow> nat
     \<Rightarrow> string \<Rightarrow> string \<Rightarrow> string \<Rightarrow> string list \<Rightarrow> error + string list" where
  "trigram_words_loop bigrams trigrams rnd k 0 first_word second_word next_word result =
     Inr result"
| "trigram_words_loop bigrams trigrams rnd k (Suc n) first_word second_word next_word result =
     (case trigram_next bigrams trigrams second_word next_word (rnd k) of
        Inl e \<Rightarrow> Inl e
      | Inr next_word' \<Rightarrow>
          trigram_words_loop bigrams trigrams rnd (Suc k) n second_word next_word next_word'
            (result @ [next_word']))"

definition random_trigram_words ::
  "string \<Rightarrow> string \<Rightarrow> bigram_model \<Rightarrow> trigram_model \<Rightarrow> int \<Rightarrow> (nat \<Rightarrow> rat)
     \<Rightarrow> error + string list" where
  "random_trigram_words first_word second_word bigrams trigrams num_words rnd =
     (case dict_get trigrams (first_word, second_word) of
        Inl e \<Rightarrow> Inl e
      | Inr distr \<Rightarrow>
          (case select_random distr (rnd 0) of
             Inl e \<Rightarrow> Inl e
           | Inr next_word \<Rightarrow>
               trigram_words_loop bigrams trigrams rnd 1 (nat (num_words - 2))
                 first_word second_word next_word [first_word, second_word]))"

section \<open>The construction algorithm of the specification\<close>

text \<open>
  The specification builds a bigram or trigram model in two phases: for every adjacent
  pair (triple) of tokens the count of the next token under its context is incremented;
  after all of them are counted, each context's count table is normalised once, each
  count divided by the table's total.
\<close>

definition spec_normalize :: "('k, int) dict \<Rightarrow> ('k, rat) dict" where
  "spec_normalize counts =
     map (\<lambda>kc. (fst kc, of_int (snd kc) / of_int (sum_list (map snd counts)))) counts"

definition spec_table :: "('c, (string, int) dict) dict \<Rightarrow> 'c \<Rightarrow> (string, int) dict" where
  "spec_table counts ctx = (case map_of counts ctx of None \<Rightarrow> [] | Some t \<Rightarrow> t)"

definition spec_bump :: "string \<Rightarrow> (string, int) dict \<Rightarrow> (string, int) dict" where
  "spec_bump w table = dict_set w ((case map_of table w of None \<Rightarrow> 0 | Some c \<Rightarrow> c) + 1) table"

definition spec_increment ::
  "'c \<Rightarrow> string \<Rightarrow> ('c, (string, int) dict) dict \<Rightarrow> ('c, (string, int) dict) dict" where
  "spec_increment ctx w counts = dict_set ctx (spec_bump w (spec_table counts ctx)) counts"

fun spec_count ::
  "('c \<times> string) list \<Rightarrow> ('c, (string, int) dict) dict \<Rightarrow> ('c, (string, int) dict) dict" where
  "spec_count [] counts = counts"
| "spec_count ((ctx, w) # rest) counts = spec_count rest (spec_increment ctx w counts)"

definition spec_normalize_all ::
  "('c, (string, int) dict) dict \<Rightarrow> ('c, distribution) dict" where
  "spec_normalize_all counts = map (\<lambda>ct. (fst ct, spec_normalize (snd ct))) counts"

definition spec_build_bigram :: "string list \<Rightarrow> bigram_model" where
  "spec_build_bigram tokens =
     spec_normalize_all
       (spec_count (map (\<lambda>i. (tokens ! i, tokens ! (i + 1))) [0 ..< length tokens - 1]) [])"

definition spec_build_trigram :: "string list \<Rightarrow> trigram_model" where
  "spec_build_trigram tokens =
     spec_normalize_all
       (spec_count
          (map (\<lambda>i. ((tokens ! i, tokens ! (i + 1)), tokens ! (i + 2)))
             [0 ..< length tokens - 2]) [])"

text \<open>
  The invariant of the count tables during construction: a table has distinct keys and
  positive counts, and every table stored under a context is non-empty.
\<close>

definition table_ok :: "(string, int) dict \<Rightarrow> bool" where
  "table_ok t = (distinct (map fst t) \<and> (\<forall>c \<in> snd ` set t. 0 < c))"

definition counts_ok :: "('c, (string, int) dict) dict \<Rightarrow> bool" where
  "counts_ok counts = (\<forall>t \<in> snd ` set counts. table_ok t \<and> t \<noteq> [])"

section \<open>Dictionaries\<close>

lemma dict_set_new:
  "k \<notin> fst ` set d \<Longrightarrow> dict_set k v d = d @ [(k, v)]"
  by (induction d) (auto simp: dict_set_def)

lemma dict_set_values: "snd ` set (dict_set k v d) \<subseteq> insert v (snd ` set d)"
  by (induction d) (auto simp: dict_set_def)

lemma dict_set_distinct: "distinct (map fst d) \<Longrightarrow> distinct (map fst (dict_set k v d))"
  by (simp add: dict_set_def distinct_update)

lemma dict_set_nonempty: "dict_set k v d \<noteq> []"
  by (simp add: dict_set_def)

lemma dict_set_twice: "dict_set k v (dict_set k v' d) = dict_set k v d"
  by (simp add: dict_set_def)

lemma map_of_dict_set: "map_of (dict_set k v d) = (map_of d)(k \<mapsto> v)"
  by (simp add: dict_set_def update_conv')

lemma dict_get_other: "k \<noteq> k' \<Longrightarrow> dict_get (dict_set k' v d) k = dict_get d k"
  by (simp add: dict_get_def dict_set_def update_conv')

lemma dict_set_positive:
  fixes d :: "('k, int) dict"
  assumes "\<forall>c \<in> snd ` set d. 0 < c" and "0 < v"
  shows "\<forall>c \<in> snd ` set (dict_set k v d). 0 < c"
proof
  fix c
  assume "c \<in> snd ` set (dict_set k v d)"
  then have "c = v \<or> c \<in> snd ` set d"
    using dict_set_values [of k v d] by auto
  then show "0 < c"
    using assms by auto
qed


section \<open>Normalisation\<close>

lemma count_total_sum: "count_total counts t = t + sum_list (map snd counts)"
  by (induction counts arbitrary: t) auto

lemma divide_loop_distinct:
  assumes "t \<noteq> 0" and "distinct (map fst counts)"
    and "fst ` set probabilities \<inter> fst ` set counts = {}"
  shows "divide_loop t counts probabilities =
         Inr (probabilities @ map (\<lambda>kc. (fst kc, of_int (snd kc) / of_int t)) counts)"
  using assms
proof (induction counts arbitrary: probabilities)
  case Nil
  then show ?case by simp
next
  case (Cons kc counts)
  obtain item c where kc: "kc = (item, c)" by (cases kc)
  let ?p = "dict_set item (of_int c / of_int t) probabilities"
  have new: "item \<notin> fst ` set probabilities"
    using Cons.prems(3) kc by auto
  then have p: "?p = probabilities @ [(item, of_int c / of_int t)]"
    by (rule dict_set_new)
  have "fst ` set ?p \<inter> fst ` set counts = {}"
    using Cons.prems(2,3) kc by (auto simp: p)
  moreover have "distinct (map fst counts)"
    using Cons.prems(2) by simp
  ultimately have "divide_loop t counts ?p =
      Inr (?p @ map (\<lambda>kc. (fst kc, of_int (snd kc) / of_int t)) counts)"
    using Cons.IH Cons.prems(1) by blast
  then show ?case
    using Cons.prems(1) by (simp add: kc p)
qed

lemma counts_to_probabilities_normalize:
  assumes "distinct (map fst counts)" and "sum_list (map snd counts) \<noteq> 0"
  shows "counts_to_probabilities counts = Inr (spec_normalize counts)"
  using divide_loop_distinct [of "sum_list (map snd counts)" counts "[]"] assms
  by (simp add: counts_to_probabilities_def count_total_sum spec_normalize_def)





lemma divide_loop_zero: "counts \<noteq> [] \<Longrightarrow> divide_loop 0 counts probabilities = Inl ZeroDivisionError"
  by (cases counts) auto



text \<open>
  C8, as the claim states it, fails on the empty count table: both loops of
  \<open>counts_to_probabilities\<close> run zero times, nothing is divided, and the empty
  dictionary is returned; \<open>calculate_unigrams\<close> of the empty word list therefore
  returns the empty model.
\<close>

theorem counts_to_probabilities_empty_counterexample:
  "counts_to_probabilities ([] :: (string, int) dict) = Inr []
   \<and> calculate_unigrams [] = Inr []"
  by (simp add: counts_to_probabilities_def calculate_unigrams_def)

text \<open>
  C8, amended. \<open>counts_to_probabilities\<close> fails, with \<open>ZeroDivisionError\<close>, for every
  non-empty count table whose values add up to 0. For the empty count table it returns
  the empty dictionary, and \<open>calculate_unigrams\<close> of the empty word list returns the
  empty model.
\<close>

theorem counts_to_probabilities_failure:
  fixes counts :: "('k, int) dict"
  shows "(counts \<noteq> [] \<and> sum_list (map snd counts) = 0
      \<longrightarrow> counts_to_probabilities counts = Inl ZeroDivisionError)
   \<and> counts_to_probabilities ([] :: ('k, int) dict) = Inr []
   \<and> calculate_unigrams [] = Inr []"
  by (simp add: counts_to_probabilities_def calculate_unigrams_def count_total_sum
      divide_loop_zero)

theorem counts_to_probabilities_failure_witness:
  "counts_to_probabilities [(''a'', 0)] = Inl ZeroDivisionError
   \<and> counts_to_probabilities [(''a'', 1), (''b'', - 1)] = Inl ZeroDivisionError"
  using counts_to_probabilities_failure [of "[(''a'', 0 :: int)]"]
    counts_to_probabilities_failure [of "[(''a'', 1 :: int), (''b'', - 1)]"]
  by simp

section \<open>Sampling\<close>






section \<open>Construction refines the two-phase algorithm\<close>

lemma positive_sum_list:
  fixes cs :: "int list"
  shows "\<forall>c \<in> set cs. 0 < c \<Longrightarrow> cs \<noteq> [] \<Longrightarrow> 0 < sum_list cs"
proof (induction cs)
  case Nil
  then show ?case by simp
next
  case (Cons c cs)
  show ?case
  proof (cases "cs = []")
    case True
    with Cons.prems show ?thesis by simp
  next
    case False
    then have "0 < sum_list cs"
      using Cons by simp
    moreover have "0 < c"
      using Cons.prems by simp
    ultimately show ?thesis by simp
  qed
qed

lemma table_ok_positive_sum:
  assumes "table_ok t" and "t \<noteq> []"
  shows "0 < sum_list (map snd t)"
proof -
  have "\<forall>c \<in> set (map snd t). 0 < c"
    using assms(1) by (simp add: table_ok_def)
  moreover have "map snd t \<noteq> []"
    using assms(2) by simp
  ultimately show ?thesis
    by (rule positive_sum_list)
qed

lemma table_ok_lookup_nonneg:
  assumes "table_ok t"
  shows "0 \<le> (case map_of t w of None \<Rightarrow> 0 | Some c \<Rightarrow> c)"
proof (cases "map_of t w")
  case None
  then show ?thesis by simp
next
  case (Some c)
  then have "(w, c) \<in> set t" by (rule map_of_SomeD)
  then have "c \<in> snd ` set t" by force
  then show ?thesis
    using assms Some by (auto simp: table_ok_def)
qed

lemma spec_bump_ok:
  assumes "table_ok t"
  shows "table_ok (spec_bump w t) \<and> spec_bump w t \<noteq> []"
proof -
  define v where "v = (case map_of t w of None \<Rightarrow> 0 | Some c \<Rightarrow> c) + 1"
  have b: "spec_bump w t = dict_set w v t"
    by (simp add: spec_bump_def v_def)
  have "0 < v"
    using table_ok_lookup_nonneg [OF assms, of w] by (simp add: v_def)
  moreover have "\<forall>c \<in> snd ` set t. 0 < c"
    using assms by (simp add: table_ok_def)
  ultimately have "\<forall>c \<in> snd ` set (dict_set w v t). 0 < c"
    by (intro dict_set_positive)
  moreover have "distinct (map fst (dict_set w v t))"
    using assms by (simp add: table_ok_def dict_set_distinct)
  ultimately have "table_ok (dict_set w v t)"
    by (simp add: table_ok_def)
  then show ?thesis
    by (simp add: b dict_set_nonempty)
qed

lemma spec_table_ok: "counts_ok counts \<Longrightarrow> table_ok (spec_table counts ctx)"
proof (cases "map_of counts ctx")
  case None
  then show ?thesis by (simp add: spec_table_def table_ok_def)
next
  case (Some t)
  assume ok: "counts_ok counts"
  from Some have "(ctx, t) \<in> set counts" by (rule map_of_SomeD)
  then have "t \<in> snd ` set counts" by force
  then have "table_ok t"
    using ok unfolding counts_ok_def by blast
  then show ?thesis
    using Some by (simp add: spec_table_def)
qed

lemma spec_increment_ok:
  assumes "counts_ok counts"
  shows "counts_ok (spec_increment ctx w counts)"
proof -
  define t where "t = spec_bump w (spec_table counts ctx)"
  have t: "table_ok t \<and> t \<noteq> []"
    unfolding t_def using spec_table_ok [OF assms] by (rule spec_bump_ok)
  have "\<forall>u \<in> snd ` set (dict_set ctx t counts). table_ok u \<and> u \<noteq> []"
  proof
    fix u
    assume "u \<in> snd ` set (dict_set ctx t counts)"
    then have "u = t \<or> u \<in> snd ` set counts"
      using dict_set_values [of ctx t counts] by auto
    then show "table_ok u \<and> u \<noteq> []"
      using t assms unfolding counts_ok_def by auto
  qed
  then show ?thesis
    by (simp add: counts_ok_def spec_increment_def t_def)
qed

lemma spec_normalize_all_set:
  "spec_normalize_all (dict_set k t counts) =
   dict_set k (spec_normalize t) (spec_normalize_all counts)"
  by (induction counts) (auto simp: spec_normalize_all_def dict_set_def)

lemma counts_to_probabilities_bump:
  assumes "table_ok t"
  shows "counts_to_probabilities (spec_bump w t) = Inr (spec_normalize (spec_bump w t))"
proof -
  have ok: "table_ok (spec_bump w t)" and ne: "spec_bump w t \<noteq> []"
    using spec_bump_ok [OF assms] by simp_all
  have "sum_list (map snd (spec_bump w t)) \<noteq> 0"
    using table_ok_positive_sum [OF ok ne] by simp
  moreover have "distinct (map fst (spec_bump w t))"
    using ok by (simp add: table_ok_def)
  ultimately show ?thesis
    by (simp add: counts_to_probabilities_normalize)
qed

lemma bigram_step_increment:
  assumes "counts_ok bigrams"
  shows "bigram_step (bigrams, spec_normalize_all bigrams) (w0, w1) =
         Inr (spec_increment w0 w1 bigrams, spec_normalize_all (spec_increment w0 w1 bigrams))"
proof -
  let ?t = "spec_table bigrams w0"
  have ctp: "counts_to_probabilities (spec_bump w1 ?t) = Inr (spec_normalize (spec_bump w1 ?t))"
    using spec_table_ok [OF assms] by (rule counts_to_probabilities_bump)
  show ?thesis
  proof (cases "map_of bigrams w0")
    case None
    then have t: "?t = []" by (simp add: spec_table_def)
    show ?thesis
      using None ctp unfolding t
      by (simp add: bigram_step_def Let_def has_key_def map_of_dict_set spec_increment_def
          spec_table_def spec_bump_def dict_set_twice spec_normalize_all_set)
  next
    case (Some table)
    then have t: "?t = table" by (simp add: spec_table_def)
    show ?thesis
      using Some ctp unfolding t
      by (cases "map_of table w1")
        (simp_all add: bigram_step_def Let_def has_key_def spec_increment_def
          spec_table_def spec_bump_def spec_normalize_all_set)
  qed
qed

lemma trigram_step_increment:
  assumes "counts_ok trigrams"
  shows "trigram_step (trigrams, spec_normalize_all trigrams) (w0, w1, w2) =
         Inr (spec_increment (w0, w1) w2 trigrams,
              spec_normalize_all (spec_increment (w0, w1) w2 trigrams))"
proof -
  let ?t = "spec_table trigrams (w0, w1)"
  have ctp: "counts_to_probabilities (spec_bump w2 ?t) = Inr (spec_normalize (spec_bump w2 ?t))"
    using spec_table_ok [OF assms] by (rule counts_to_probabilities_bump)
  show ?thesis
  proof (cases "map_of trigrams (w0, w1)")
    case None
    then have t: "?t = []" by (simp add: spec_table_def)
    show ?thesis
      using None ctp unfolding t
      by (simp add: trigram_step_def Let_def spec_increment_def
          spec_table_def spec_bump_def spec_normalize_all_set)
  next
    case (Some table)
    then have t: "?t = table" by (simp add: spec_table_def)
    show ?thesis
      using Some ctp unfolding t
      by (cases "map_of table w2")
        (simp_all add: trigram_step_def Let_def spec_increment_def
          spec_table_def spec_bump_def spec_normalize_all_set)
  qed
qed

lemma bigram_loop_count:
  "counts_ok bigrams \<Longrightarrow>
   bigram_loop (bigrams, spec_normalize_all bigrams) pairs =
   Inr (spec_count pairs bigrams, spec_normalize_all (spec_count pairs bigrams))"
proof (induction pairs arbitrary: bigrams)
  case Nil
  then show ?case by simp
next
  case (Cons p pairs)
  obtain w0 w1 where p: "p = (w0, w1)" by (cases p)
  have "counts_ok (spec_increment w0 w1 bigrams)"
    using Cons.prems by (rule spec_increment_ok)
  then show ?case
    using Cons.IH [of "spec_increment w0 w1 bigrams"] bigram_step_increment [OF Cons.prems]
    by (simp add: p)
qed

lemma trigram_loop_count:
  "counts_ok trigrams \<Longrightarrow>
   trigram_loop (trigrams, spec_normalize_all trigrams) triples =
   Inr (spec_count (map (\<lambda>t. ((fst t, fst (snd t)), snd (snd t))) triples) trigrams,
        spec_normalize_all
          (spec_count (map (\<lambda>t. ((fst t, fst (snd t)), snd (snd t))) triples) trigrams))"
proof (induction triples arbitrary: trigrams)
  case Nil
  then show ?case by simp
next
  case (Cons p triples)
  obtain w0 w1 w2 where p: "p = (w0, w1, w2)" by (cases p)
  have "counts_ok (spec_increment (w0, w1) w2 trigrams)"
    using Cons.prems by (rule spec_increment_ok)
  then show ?case
    using Cons.IH [of "spec_increment (w0, w1) w2 trigrams"]
      trigram_step_increment [OF Cons.prems]
    by (simp add: p)
qed

lemma adjacent_pairs:
  "zip ws (drop 1 ws) = map (\<lambda>i. (ws ! i, ws ! (i + 1))) [0 ..< length ws - 1]"
  by (rule nth_equalityI) auto

lemma adjacent_triples:
  "map (\<lambda>t. ((fst t, fst (snd t)), snd (snd t))) (zip ws (zip (drop 1 ws) (drop 2 ws))) =
   map (\<lambda>i. ((ws ! i, ws ! (i + 1)), ws ! (i + 2))) [0 ..< length ws - 2]"
  by (rule nth_equalityI) auto

lemma counts_ok_empty: "counts_ok []"
  by (simp add: counts_ok_def)

text \<open>
  C4. For every word list, \<open>calculate_bigrams\<close> and \<open>calculate_trigrams\<close>, which
  normalise the count table of a context again after every pair or triple counted and
  overwrite the previous distribution, return (without error) exactly the model of the
  two-phase algorithm of the specification, which counts all pairs or triples first and
  then normalises each context's table once.
\<close>

theorem calculate_refines_spec:
  "calculate_bigrams word_list = Inr (spec_build_bigram word_list)
   \<and> calculate_trigrams word_list = Inr (spec_build_trigram word_list)"
proof
  have "bigram_loop ([], []) (zip word_list (drop 1 word_list)) =
        Inr (spec_count (zip word_list (drop 1 word_list)) [],
             spec_normalize_all (spec_count (zip word_list (drop 1 word_list)) []))"
    using bigram_loop_count [OF counts_ok_empty] by (simp add: spec_normalize_all_def)
  then show "calculate_bigrams word_list = Inr (spec_build_bigram word_list)"
    unfolding calculate_bigrams_def spec_build_bigram_def adjacent_pairs by simp
next
  let ?triples = "zip word_list (zip (drop 1 word_list) (drop 2 word_list))"
  let ?f = "\<lambda>t :: string \<times> string \<times> string. ((fst t, fst (snd t)), snd (snd t))"
  have "trigram_loop ([], []) ?triples =
        Inr (spec_count (map ?f ?triples) [], spec_normalize_all (spec_count (map ?f ?triples) []))"
    using trigram_loop_count [OF counts_ok_empty] by (simp add: spec_normalize_all_def)
  then show "calculate_trigrams word_list = Inr (spec_build_trigram word_list)"
    unfolding calculate_trigrams_def spec_build_trigram_def adjacent_triples by simp
qed

theorem calculate_refines_spec_witness:
  "spec_build_bigram [''a'', ''b'', ''c'', ''a'', ''b'', ''d''] =
     [(''a'', [(''b'', 1)]), (''b'', [(''c'', 1 / 2), (''d'', 1 / 2)]), (''c'', [(''a'', 1)])]
   \<and> spec_build_trigram [''a'', ''b'', ''c'', ''a'', ''b'', ''d''] =
     [((''a'', ''b''), [(''c'', 1 / 2), (''d'', 1 / 2)]), ((''b'', ''c''), [(''a'', 1)]),
      ((''c'', ''a''), [(''b'', 1)])]"
proof -
  have b: "calculate_bigrams [''a'', ''b'', ''c'', ''a'', ''b'', ''d''] =
      Inr [(''a'', [(''b'', 1)]), (''b'', [(''c'', 1 / 2), (''d'', 1 / 2)]), (''c'', [(''a'', 1)])]"
    by code_simp
  have t: "calculate_trigrams [''a'', ''b'', ''c'', ''a'', ''b'', ''d''] =
      Inr [((''a'', ''b''), [(''c'', 1 / 2), (''d'', 1 / 2)]), ((''b'', ''c''), [(''a'', 1)]),
           ((''c'', ''a''), [(''b'', 1)])]"
    by code_simp
  show ?thesis
    using calculate_refines_spec [of "[''a'', ''b'', ''c'', ''a'', ''b'', ''d'']"] b t
    by simp
qed

section \<open>Text and words\<close>

lemma join_words_snoc: "join_words (ws @ [w]) = join_words ws @ w @ '' ''"
  by (simp add: join_words_def)

lemma join_words_two: "join_words [a, b] = a @ '' '' @ b @ '' ''"
  by (simp add: join_words_def)

lemma unigram_text_words_loop:
  "unigram_text_loop unigrams rnd k n (join_words acc) =
   map_sum id join_words (unigram_words_loop unigrams rnd k n acc)"
proof (induction n arbitrary: k acc)
  case 0
  then show ?case by simp
next
  case (Suc n)
  show ?case
  proof (cases "select_random unigrams (rnd k)")
    case (Inl e)
    then show ?thesis by simp
  next
    case (Inr w)
    then show ?thesis
      using Suc.IH [of "Suc k" "acc @ [w]"] by (simp add: join_words_snoc)
  qed
qed

lemma unigram_text_words:
  "random_unigram_text unigrams num_words rnd =
   map_sum id render (random_unigram_words unigrams num_words rnd)"
proof -
  have "unigram_text_loop unigrams rnd 0 (nat num_words) [] =
        map_sum id join_words (unigram_words_loop unigrams rnd 0 (nat num_words) [])"
    using unigram_text_words_loop [of unigrams rnd 0 "nat num_words" "[]"]
    by (simp add: join_words_def)
  then show ?thesis
    by (cases "unigram_words_loop unigrams rnd 0 (nat num_words) []")
      (simp_all add: random_unigram_text_def random_unigram_words_def render_def)
qed

lemma bigram_text_words_loop:
  "bigram_text_loop bigrams rnd k n w (join_words acc) =
   map_sum id join_words (bigram_words_loop bigrams rnd k n w acc)"
proof (induction n arbitrary: k w acc)
  case 0
  then show ?case by simp
next
  case (Suc n)
  show ?case
  proof (cases "dict_get bigrams w")
    case (Inl e)
    then show ?thesis by simp
  next
    case (Inr distr)
    show ?thesis
    proof (cases "select_random distr (rnd k)")
      case (Inl e)
      with Inr show ?thesis by simp
    next
      case sel: (Inr w')
      show ?thesis
        using Inr sel Suc.IH [of "Suc k" w' "acc @ [w']"] by (simp add: join_words_snoc)
    qed
  qed
qed

lemma bigram_text_words:
  "random_bigram_text first_word bigrams num_words rnd =
   map_sum id render (random_bigram_words first_word bigrams num_words rnd)"
proof (cases "dict_get bigrams first_word")
  case (Inl e)
  then show ?thesis by (simp add: random_bigram_text_def random_bigram_words_def)
next
  case (Inr distr)
  show ?thesis
  proof (cases "select_random distr (rnd 0)")
    case (Inl e)
    with Inr show ?thesis by (simp add: random_bigram_text_def random_bigram_words_def)
  next
    case sel: (Inr w)
    have "bigram_text_loop bigrams rnd 1 (nat (num_words - 2)) w (first_word @ '' '' @ w @ '' '') =
          map_sum id join_words
            (bigram_words_loop bigrams rnd 1 (nat (num_words - 2)) w [first_word, w])"
      using bigram_text_words_loop [of bigrams rnd 1 "nat (num_words - 2)" w "[first_word, w]"]
      by (simp only: join_words_two)
    then show ?thesis
      using Inr sel
      by (cases "bigram_words_loop bigrams rnd 1 (nat (num_words - 2)) w [first_word, w]")
        (simp_all add: random_bigram_text_def random_bigram_words_def render_def)
  qed
qed

lemma trigram_text_words_loop:
  "trigram_text_loop bigrams trigrams rnd k n f s w (join_words acc) =
   map_sum id join_words (trigram_words_loop bigrams trigrams rnd k n f s w acc)"
proof (induction n arbitrary: k f s w acc)
  case 0
  then show ?case by simp
next
  case (Suc n)
  show ?case
  proof (cases "trigram_next bigrams trigrams s w (rnd k)")
    case (Inl e)
    then show ?thesis by simp
  next
    case (Inr w')
    then show ?thesis
      using Suc.IH [of "Suc k" s w w' "acc @ [w']"] by (simp add: join_words_snoc)
  qed
qed

lemma trigram_text_words:
  "random_trigram_text first_word second_word bigrams trigrams num_words rnd =
   map_sum id render (random_trigram_words first_word second_word bigrams trigrams num_words rnd)"
proof (cases "dict_get trigrams (first_word, second_word)")
  case (Inl e)
  then show ?thesis by (simp add: random_trigram_text_def random_trigram_words_def)
next
  case (Inr distr)
  show ?thesis
  proof (cases "select_random distr (rnd 0)")
    case (Inl e)
    with Inr show ?thesis by (simp add: random_trigram_text_def random_trigram_words_def)
  next
    case sel: (Inr w)
    let ?n = "nat (num_words - 2)"
    have "trigram_text_loop bigrams trigrams rnd 1 ?n first_word second_word w
            (first_word @ '' '' @ second_word @ '' '') =
          map_sum id join_words
            (trigram_words_loop bigrams trigrams rnd 1 ?n first_word second_word w
               [first_word, second_word])"
      using trigram_text_words_loop
        [of bigrams trigrams rnd 1 ?n first_word second_word w "[first_word, second_word]"]
      by (simp only: join_words_two)
    then show ?thesis
      using Inr sel
      by (cases "trigram_words_loop bigrams trigrams rnd 1 ?n first_word second_word w
                   [first_word, second_word]")
        (simp_all add: random_trigram_text_def random_trigram_words_def render_def)
  qed
qed

lemma is_space_blank: "is_space (CHR '' '')"
  by (simp add: is_space_def)

lemma split_loop_word:
  "\<forall>c \<in> set w. \<not> is_space c \<Longrightarrow> split_loop cur (w @ rest) = split_loop (cur @ w) rest"
  by (induction w arbitrary: cur) auto

lemma split_loop_join:
  "\<forall>w \<in> set ws. is_word w \<Longrightarrow> split_loop [] (join_words ws) = ws"
proof (induction ws)
  case Nil
  then show ?case by (simp add: join_words_def)
next
  case (Cons w ws)
  then have w: "w \<noteq> []" "\<forall>c \<in> set w. \<not> is_space c"
    by (simp_all add: is_word_def)
  have "split_loop [] (join_words (w # ws)) = split_loop [] (w @ CHR '' '' # join_words ws)"
    by (simp add: join_words_def)
  also have "\<dots> = split_loop w (CHR '' '' # join_words ws)"
    using split_loop_word [OF w(2), of "[]"] by simp
  also have "\<dots> = w # split_loop [] (join_words ws)"
    using w(1) by (simp add: is_space_blank)
  finally show ?case
    using Cons by simp
qed

lemma split_loop_spaces:
  "\<forall>c \<in> set sp. is_space c \<Longrightarrow> split_loop cur sp = (if cur = [] then [] else [cur])"
  by (induction sp arbitrary: cur) auto

lemma split_loop_trailing:
  "\<forall>c \<in> set sp. is_space c \<Longrightarrow> split_loop cur (s @ sp) = split_loop cur s"
proof (induction s arbitrary: cur)
  case Nil
  then show ?case by (simp add: split_loop_spaces)
next
  case (Cons c s)
  then show ?case by simp
qed

lemma rstrip_decompose: "\<exists>sp. s = rstrip s @ sp \<and> (\<forall>c \<in> set sp. is_space c)"
proof -
  let ?sp = "rev (takeWhile is_space (rev s))"
  have "rev s = takeWhile is_space (rev s) @ dropWhile is_space (rev s)"
    by simp
  then have "s = rev (dropWhile is_space (rev s)) @ ?sp"
    by (metis rev_append rev_rev_ident)
  moreover have "\<forall>c \<in> set ?sp. is_space c"
    by (auto dest: set_takeWhileD)
  ultimately show ?thesis
    unfolding rstrip_def by blast
qed

lemma split_rstrip: "split (rstrip s) = split s"
proof -
  obtain sp where "s = rstrip s @ sp" "\<forall>c \<in> set sp. is_space c"
    using rstrip_decompose by blast
  then show ?thesis
    using split_loop_trailing [of sp "[]" "rstrip s"] by (simp add: split_def)
qed

lemma split_render: "\<forall>w \<in> set ws. is_word w \<Longrightarrow> split (render ws) = ws"
  by (simp add: render_def split_rstrip) (simp add: split_def split_loop_join)

lemma unigram_words_loop_length:
  "unigram_words_loop unigrams rnd k n acc = Inr ws \<Longrightarrow> length ws = length acc + n"
proof (induction n arbitrary: k acc)
  case 0
  then show ?case by simp
next
  case (Suc n)
  then show ?case
    by (cases "select_random unigrams (rnd k)") fastforce+
qed

lemma bigram_words_loop_length:
  "bigram_words_loop bigrams rnd k n w acc = Inr ws \<Longrightarrow> length ws = length acc + n"
proof (induction n arbitrary: k w acc)
  case 0
  then show ?case by simp
next
  case (Suc n)
  then show ?case
    by (fastforce split: sum.splits)
qed

lemma trigram_words_loop_length:
  "trigram_words_loop bigrams trigrams rnd k n f s w acc = Inr ws \<Longrightarrow>
   length ws = length acc + n"
proof (induction n arbitrary: k f s w acc)
  case 0
  then show ?case by simp
next
  case (Suc n)
  then show ?case
    by (fastforce split: sum.splits)
qed

lemma random_unigram_words_length:
  "random_unigram_words unigrams num_words rnd = Inr ws \<Longrightarrow> length ws = nat num_words"
  using unigram_words_loop_length [of unigrams rnd 0 "nat num_words" "[]" ws]
  by (simp add: random_unigram_words_def)

lemma random_bigram_words_length:
  "random_bigram_words first_word bigrams num_words rnd = Inr ws \<Longrightarrow>
   length ws = 2 + nat (num_words - 2)"
  by (auto simp: random_bigram_words_def split: sum.splits dest: bigram_words_loop_length)

lemma random_trigram_words_length:
  "random_trigram_words first_word second_word bigrams trigrams num_words rnd = Inr ws \<Longrightarrow>
   length ws = 2 + nat (num_words - 2)"
  by (auto simp: random_trigram_words_def split: sum.splits dest: trigram_words_loop_length)

lemma rendered_words:
  assumes "map_sum id render x = Inr s"
  shows "\<exists>ws. x = Inr ws \<and> s = render ws \<and> ((\<forall>w \<in> set ws. is_word w) \<longrightarrow> split s = ws)"
proof (cases x)
  case (Inl e)
  with assms show ?thesis by simp
next
  case (Inr ws)
  with assms have "s = render ws" by simp
  then show ?thesis
    using Inr split_render by blast
qed

text \<open>
  C9. A generation call that succeeds with a valid requested length returns the text of
  exactly that many words: \<open>random_unigram_text\<close> for \<open>n \<ge> 1\<close>, \<open>random_bigram_text\<close>
  and \<open>random_trigram_text\<close> for \<open>n \<ge> 2\<close>. The returned string \<open>s\<close> is the rendering
  of the list \<open>ws\<close> of the words the call appended, \<open>ws\<close> has \<open>n\<close> elements, and when
  these are words without whitespace, \<open>ws\<close> is what splitting \<open>s\<close> gives.
\<close>

theorem generated_length:
  "(1 \<le> n \<and> random_unigram_text unigrams n rnd = Inr s \<longrightarrow>
      (\<exists>ws. random_unigram_words unigrams n rnd = Inr ws \<and> s = render ws
          \<and> int (length ws) = n \<and> ((\<forall>w \<in> set ws. is_word w) \<longrightarrow> split s = ws)))
   \<and> (2 \<le> n \<and> random_bigram_text first_word bigrams n rnd = Inr s \<longrightarrow>
      (\<exists>ws. random_bigram_words first_word bigrams n rnd = Inr ws \<and> s = render ws
          \<and> int (length ws) = n \<and> ((\<forall>w \<in> set ws. is_word w) \<longrightarrow> split s = ws)))
   \<and> (2 \<le> n \<and> random_trigram_text first_word second_word bigrams trigrams n rnd = Inr s \<longrightarrow>
      (\<exists>ws. random_trigram_words first_word second_word bigrams trigrams n rnd = Inr ws
          \<and> s = render ws \<and> int (length ws) = n
          \<and> ((\<forall>w \<in> set ws. is_word w) \<longrightarrow> split s = ws)))"
proof (intro conjI impI)
  assume a: "1 \<le> n \<and> random_unigram_text unigrams n rnd = Inr s"
  then have "map_sum id render (random_unigram_words unigrams n rnd) = Inr s"
    by (simp add: unigram_text_words)
  then obtain ws where ws: "random_unigram_words unigrams n rnd = Inr ws" "s = render ws"
    "(\<forall>w \<in> set ws. is_word w) \<longrightarrow> split s = ws"
    using rendered_words by blast
  have "int (length ws) = n"
    using random_unigram_words_length [OF ws(1)] a by simp
  with ws show "\<exists>ws. random_unigram_words unigrams n rnd = Inr ws \<and> s = render ws
      \<and> int (length ws) = n \<and> ((\<forall>w \<in> set ws. is_word w) \<longrightarrow> split s = ws)"
    by blast
next
  assume a: "2 \<le> n \<and> random_bigram_text first_word bigrams n rnd = Inr s"
  then have "map_sum id render (random_bigram_words first_word bigrams n rnd) = Inr s"
    by (simp add: bigram_text_words)
  then obtain ws where ws: "random_bigram_words first_word bigrams n rnd = Inr ws" "s = render ws"
    "(\<forall>w \<in> set ws. is_word w) \<longrightarrow> split s = ws"
    using rendered_words by blast
  have "int (length ws) = n"
    using random_bigram_words_length [OF ws(1)] a by simp
  with ws show "\<exists>ws. random_bigram_words first_word bigrams n rnd = Inr ws \<and> s = render ws
      \<and> int (length ws) = n \<and> ((\<forall>w \<in> set ws. is_word w) \<longrightarrow> split s = ws)"
    by blast
next
  assume a: "2 \<le> n \<and> random_trigram_text first_word second_word bigrams trigrams n rnd = Inr s"
  then have "map_sum id render
      (random_trigram_words first_word second_word bigrams trigrams n rnd) = Inr s"
    by (simp add: trigram_text_words)
  then obtain ws where
    ws: "random_trigram_words first_word second_word bigrams trigrams n rnd = Inr ws"
      "s = render ws" "(\<forall>w \<in> set ws. is_word w) \<longrightarrow> split s = ws"
    using rendered_words by blast
  have "int (length ws) = n"
    using random_trigram_words_length [OF ws(1)] a by simp
  with ws show "\<exists>ws. random_trigram_words first_word second_word bigrams trigrams n rnd = Inr ws
      \<and> s = render ws \<and> int (length ws) = n
      \<and> ((\<forall>w \<in> set ws. is_word w) \<longrightarrow> split s = ws)"
    by blast
qed

theorem generated_length_witness:
  "split ''a b a'' = [''a'', ''b'', ''a'']
   \<and> random_unigram_words [(''a'', 9 / 10), (''b'', 1 / 10)] 3
        (\<lambda>i. if i = 1 then 19 / 20 else 0) = Inr [''a'', ''b'', ''a'']
   \<and> split ''think i think i think'' = [''think'', ''i'', ''think'', ''i'', ''think'']
   \<and> split ''a b d e'' = [''a'', ''b'', ''d'', ''e'']"
proof -
  let ?u = "[(''a'', 9 / 10 :: rat), (''b'', 1 / 10)]"
  let ?r = "\<lambda>i :: nat. if i = 1 then 19 / 20 else (0 :: rat)"
  let ?bg = "[(''i'', [(''think'', 3 / 4 :: rat), (''am'', 1 / 4)]),
             (''think'', [(''therefore'', 1 / 2), (''i'', 1 / 2)]),
             (''therefore'', [(''i'', 1)]), (''am'', [(''i'', 1)])]"
  let ?bg' = "[(''a'', [(''b'', 1 :: rat)]), (''b'', [(''c'', 1)]), (''c'', [(''d'', 1)]),
             (''d'', [(''e'', 1)])]"
  let ?tg = "[((''a'', ''b''), [(''c'', 1 :: rat)]), ((''b'', ''c''), [(''d'', 1)]),
             ((''c'', ''d''), [(''e'', 1)])]"
  have u: "(1 :: int) \<le> 3 \<and> random_unigram_text ?u 3 ?r = Inr ''a b a''"
    by code_simp
  have b: "(2 :: int) \<le> 5
      \<and> random_bigram_text ''think'' ?bg 5 (\<lambda>_. 1 / 2) = Inr ''think i think i think''"
    by code_simp
  have t: "(2 :: int) \<le> 4 \<and> random_trigram_text ''a'' ''b'' ?bg' ?tg 4 (\<lambda>_. 0) = Inr ''a b d e''"
    by code_simp
  have uw: "random_unigram_words ?u 3 ?r = Inr [''a'', ''b'', ''a'']"
    by code_simp
  have bw: "random_bigram_words ''think'' ?bg 5 (\<lambda>_. 1 / 2) =
      Inr [''think'', ''i'', ''think'', ''i'', ''think'']"
    by code_simp
  have tw: "random_trigram_words ''a'' ''b'' ?bg' ?tg 4 (\<lambda>_. 0) = Inr [''a'', ''b'', ''d'', ''e'']"
    by code_simp
  have wu: "\<forall>w \<in> set [''a'', ''b'', ''a'']. is_word w"
    and wb: "\<forall>w \<in> set [''think'', ''i'', ''think'', ''i'', ''think'']. is_word w"
    and wt: "\<forall>w \<in> set [''a'', ''b'', ''d'', ''e'']. is_word w"
    by (simp_all add: is_word_def is_space_def)
  have "split ''a b a'' = [''a'', ''b'', ''a'']"
    using generated_length [where n = 3 and unigrams = ?u and rnd = ?r and s = "''a b a''",
        THEN conjunct1, rule_format, OF u] uw wu
    by auto
  moreover have "split ''think i think i think'' = [''think'', ''i'', ''think'', ''i'', ''think'']"
    using generated_length [where n = 5 and first_word = "''think''" and bigrams = ?bg
        and rnd = "\<lambda>_. 1 / 2" and s = "''think i think i think''",
        THEN conjunct2, THEN conjunct1, rule_format, OF b] bw wb
    by auto
  moreover have "split ''a b d e'' = [''a'', ''b'', ''d'', ''e'']"
    using generated_length [where n = 4 and first_word = "''a''" and second_word = "''b''"
        and bigrams = ?bg' and trigrams = ?tg and rnd = "\<lambda>_. 0" and s = "''a b d e''",
        THEN conjunct2, THEN conjunct2, rule_format, OF t] tw wt
    by auto
  ultimately show ?thesis
    using uw by simp
qed

section \<open>Requested lengths below the minimum\<close>



text \<open>
  C7, as the claim states it, fails: no generator checks the requested length. With the
  bigram model of the words \<open>i am i\<close>, \<open>random_bigram_text\<close> with \<open>num_words = 1\<close>
  returns the two words \<open>i am\<close>; \<open>random_unigram_text\<close> with \<open>num_words = 0\<close> returns
  the empty text; \<open>random_trigram_text\<close> with \<open>num_words = 1\<close> returns the two seed
  words.
\<close>

theorem no_length_check_counterexample:
  "calculate_bigrams [''i'', ''am'', ''i''] = Inr [(''i'', [(''am'', 1)]), (''am'', [(''i'', 1)])]
   \<and> random_bigram_text ''i'' [(''i'', [(''am'', 1)]), (''am'', [(''i'', 1)])] 1 (\<lambda>_. 0)
       = Inr ''i am''
   \<and> random_unigram_text [(''i'', 2 / 3), (''am'', 1 / 3)] 0 (\<lambda>_. 0) = Inr []
   \<and> random_trigram_text ''i'' ''am'' [(''i'', [(''am'', 1)]), (''am'', [(''i'', 1)])]
        [((''i'', ''am''), [(''i'', 1)])] 1 (\<lambda>_. 0) = Inr ''i am''"
  by code_simp

text \<open>
  C7, amended. A requested length below the minimum is not an error. For
  \<open>num_words < 1\<close> \<open>random_unigram_text\<close> returns the empty text, without sampling. For
  \<open>num_words < 2\<close> \<open>random_bigram_text\<close> and \<open>random_trigram_text\<close> do exactly what
  they do for \<open>num_words = 2\<close>: the loop over \<open>xrange(num_words - 2)\<close> does not run.
\<close>

theorem no_length_check:
  "(n < 1 \<longrightarrow> random_unigram_text unigrams n rnd = Inr [])
   \<and> (n < 2 \<longrightarrow> random_bigram_text first_word bigrams n rnd =
                 random_bigram_text first_word bigrams 2 rnd)
   \<and> (n < 2 \<longrightarrow> random_trigram_text first_word second_word bigrams trigrams n rnd =
                 random_trigram_text first_word second_word bigrams trigrams 2 rnd)"
proof (intro conjI impI)
  assume "n < 1"
  then have "nat n = 0" by simp
  then show "random_unigram_text unigrams n rnd = Inr []"
    by (simp add: random_unigram_text_def rstrip_def)
next
  assume "n < 2"
  then have "nat (n - 2) = nat (2 - 2)" by simp
  then show "random_bigram_text first_word bigrams n rnd =
      random_bigram_text first_word bigrams 2 rnd"
    by (simp only: random_bigram_text_def)
next
  assume "n < 2"
  then have "nat (n - 2) = nat (2 - 2)" by simp
  then show "random_trigram_text first_word second_word bigrams trigrams n rnd =
      random_trigram_text first_word second_word bigrams trigrams 2 rnd"
    by (simp only: random_trigram_text_def)
qed

theorem no_length_check_witness:
  "random_unigram_text [(''a'', 9 / 10), (''b'', 1 / 10)] (- 1) (\<lambda>_. 0) = Inr []
   \<and> random_bigram_text ''i'' [(''i'', [(''am'', 1)])] 1 (\<lambda>_. 0) =
       random_bigram_text ''i'' [(''i'', [(''am'', 1)])] 2 (\<lambda>_. 0)
   \<and> random_bigram_text ''i'' [(''i'', [(''am'', 1)])] 2 (\<lambda>_. 0) = Inr ''i am''
   \<and> random_trigram_text ''a'' ''b'' [] [((''a'', ''b''), [(''c'', 1)])] 0 (\<lambda>_. 0) =
       random_trigram_text ''a'' ''b'' [] [((''a'', ''b''), [(''c'', 1)])] 2 (\<lambda>_. 0)
   \<and> random_trigram_text ''a'' ''b'' [] [((''a'', ''b''), [(''c'', 1)])] 2 (\<lambda>_. 0) = Inr ''a b''"
proof -
  have b: "random_bigram_text ''i'' [(''i'', [(''am'', 1)])] 2 (\<lambda>_. 0) = Inr ''i am''"
    by code_simp
  have t: "random_trigram_text ''a'' ''b'' [] [((''a'', ''b''), [(''c'', 1)])] 2 (\<lambda>_. 0) = Inr ''a b''"
    by code_simp
  show ?thesis
    using no_length_check [where n = "- 1" and unigrams = "[(''a'', 9 / 10), (''b'', 1 / 10)]"
        and rnd = "\<lambda>_. 0", THEN conjunct1]
      no_length_check [where n = 1 and first_word = "''i''" and bigrams = "[(''i'', [(''am'', 1)])]"
        and rnd = "\<lambda>_. 0", THEN conjunct2, THEN conjunct1]
      no_length_check [where n = 0 and first_word = "''a''" and second_word = "''b''"
        and bigrams = "[]" and trigrams = "[((''a'', ''b''), [(''c'', 1)])]"
        and rnd = "\<lambda>_. 0", THEN conjunct2, THEN conjunct2]
      b t
    by simp
qed

section \<open>The transition rule of the trigram generator\<close>

text \<open>
  The loop body. Let \<open>(first_word, second_word)\<close> be the context of an iteration after
  the shift at the beginning of the loop body, and let it be no key
  of the trigram model. Then the step samples from \<open>bigrams[first_word]\<close>, the
  distribution of the older context word (or fails with \<open>KeyError\<close> when that word is
  no key). The entry of the bigram model for the more recent word plays no part: replacing
  it by any distribution \<open>d\<close> leaves the outcome of the step unchanged. The last conjunct
  is the same statement for one iteration of the loop of \<open>random_trigram_text\<close>, started
  in a state whose \<open>second_word\<close> and \<open>next_word\<close> are the context after the shift.
\<close>

theorem trigram_fallback_older:
  assumes "\<not> has_key trigrams (first_word, second_word)"
  shows "trigram_next bigrams trigrams first_word second_word r =
           (case dict_get bigrams first_word of
              Inl e \<Rightarrow> Inl e
            | Inr distr \<Rightarrow> select_random distr r)
       \<and> (first_word \<noteq> second_word \<longrightarrow>
            trigram_next (dict_set second_word d bigrams) trigrams first_word second_word r =
            trigram_next bigrams trigrams first_word second_word r)
       \<and> trigram_text_loop bigrams trigrams rnd k (Suc n) w0 first_word second_word result =
           (case dict_get bigrams first_word of
              Inl e \<Rightarrow> Inl e
            | Inr distr \<Rightarrow>
                (case select_random distr (rnd k) of
                   Inl e \<Rightarrow> Inl e
                 | Inr next_word \<Rightarrow>
                     trigram_text_loop bigrams trigrams rnd (Suc k) n
                       first_word second_word next_word (result @ next_word @ '' '')))"
  using assms
  by (auto simp: trigram_next_def dict_get_other split: sum.splits)

theorem trigram_fallback_older_witness:
  "trigram_next [(''a'', [(''x'', 1)]), (''b'', [(''y'', 1)])] [] ''a'' ''b'' 0 = Inr ''x''
   \<and> trigram_next [(''a'', [(''x'', 1)]), (''b'', [(''z'', 1)])] [] ''a'' ''b'' 0 = Inr ''x''
   \<and> trigram_text_loop [(''a'', [(''x'', 1)]), (''b'', [(''y'', 1)])] [] (\<lambda>_. 0) 1 (Suc 0)
        ''c'' ''a'' ''b'' ''c a '' = Inr ''c a x ''"
proof -
  let ?bg = "[(''a'', [(''x'', 1 :: rat)]), (''b'', [(''y'', 1)])]"
  have h: "\<not> has_key ([] :: trigram_model) (''a'', ''b'')"
    by (simp add: has_key_def)
  have s: "select_random [(''x'', 1 :: rat)] 0 = Inr ''x''"
    by (simp add: select_random_def)
  have ne: "''a'' \<noteq> ''b''" by simp
  note f = trigram_fallback_older [OF h, of ?bg 0 "[(''z'', 1)]" "\<lambda>_. 0" 1 0 "''c''" "''c a ''"]
  show ?thesis
    using f s ne by (simp add: dict_get_def dict_set_def)
qed

text \<open>
  C2. The rule does not hold at every generation step: the first sample, taken for the
  context of the two seed words, is a plain lookup in the trigram model. With the models
  of the words \<open>a b c\<close> and the seeds \<open>b\<close>, \<open>c\<close>, the context \<open>(b, c)\<close> is no key of the
  trigram model and \<open>bigrams[b]\<close> is the distribution of the single word \<open>c\<close>; the rule
  of the loop body would sample \<open>c\<close> from it, and the call fails with \<open>KeyError\<close>
  instead.
\<close>

theorem trigram_first_step_not_sampled_from_bigram:
  "calculate_bigrams [''a'', ''b'', ''c''] = Inr [(''a'', [(''b'', 1)]), (''b'', [(''c'', 1)])]
   \<and> calculate_trigrams [''a'', ''b'', ''c''] = Inr [((''a'', ''b''), [(''c'', 1)])]
   \<and> \<not> has_key [((''a'', ''b''), [(''c'', 1 :: rat)])] (''b'', ''c'')
   \<and> trigram_next [(''a'', [(''b'', 1)]), (''b'', [(''c'', 1)])]
        [((''a'', ''b''), [(''c'', 1)])] ''b'' ''c'' 0 = Inr ''c''
   \<and> random_trigram_text ''b'' ''c'' [(''a'', [(''b'', 1)]), (''b'', [(''c'', 1)])]
        [((''a'', ''b''), [(''c'', 1)])] 3 (\<lambda>_. 0) = Inl KeyError"
  by code_simp

section \<open>The first sample of the trigram generator\<close>

text \<open>
  C1. Before its loop \<open>random_trigram_text\<close> samples a word from
  \<open>trigrams[(first_word, second_word)]\<close> and does not append it to the result; the word
  only becomes part of the context of the following samples. With the models of the
  words \<open>a b c d e\<close>, the seeds \<open>a\<close>, \<open>b\<close> and four words requested, the word \<open>c\<close> is
  sampled first and dropped, and the text returned is \<open>a b d e\<close>: its third word was
  drawn for the context \<open>(b, c)\<close>, not for the two words \<open>a b\<close> that precede it in the
  output.
\<close>

theorem trigram_first_sample_dropped:
  "calculate_bigrams [''a'', ''b'', ''c'', ''d'', ''e''] =
     Inr [(''a'', [(''b'', 1)]), (''b'', [(''c'', 1)]), (''c'', [(''d'', 1)]), (''d'', [(''e'', 1)])]
   \<and> calculate_trigrams [''a'', ''b'', ''c'', ''d'', ''e''] =
     Inr [((''a'', ''b''), [(''c'', 1)]), ((''b'', ''c''), [(''d'', 1)]), ((''c'', ''d''), [(''e'', 1)])]
   \<and> random_trigram_text ''a'' ''b''
        [(''a'', [(''b'', 1)]), (''b'', [(''c'', 1)]), (''c'', [(''d'', 1)]), (''d'', [(''e'', 1)])]
        [((''a'', ''b''), [(''c'', 1)]), ((''b'', ''c''), [(''d'', 1)]), ((''c'', ''d''), [(''e'', 1)])]
        4 (\<lambda>_. 0) = Inr ''a b d e''"
  by code_simp

text \<open>
  C3. The sample before the loop is a plain lookup in the trigram model, without the
  fallback to the bigram model. With the models of the words \<open>a b c a b d\<close> and the seeds
  \<open>c\<close>, \<open>b\<close>, the pair \<open>(c, b)\<close> is no key of the trigram model while \<open>c\<close> is a key of
  the bigram model; the call fails with \<open>KeyError\<close>.
\<close>

theorem trigram_first_sample_no_fallback:
  "calculate_bigrams [''a'', ''b'', ''c'', ''a'', ''b'', ''d''] =
     Inr [(''a'', [(''b'', 1)]), (''b'', [(''c'', 1 / 2), (''d'', 1 / 2)]), (''c'', [(''a'', 1)])]
   \<and> calculate_trigrams [''a'', ''b'', ''c'', ''a'', ''b'', ''d''] =
     Inr [((''a'', ''b''), [(''c'', 1 / 2), (''d'', 1 / 2)]), ((''b'', ''c''), [(''a'', 1)]),
          ((''c'', ''a''), [(''b'', 1)])]
   \<and> dict_get [(''a'', [(''b'', 1)]), (''b'', [(''c'', 1 / 2), (''d'', 1 / 2)]), (''c'', [(''a'', 1 :: rat)])]
        ''c'' = Inr [(''a'', 1)]
   \<and> random_trigram_text ''c'' ''b''
        [(''a'', [(''b'', 1)]), (''b'', [(''c'', 1 / 2), (''d'', 1 / 2)]), (''c'', [(''a'', 1)])]
        [((''a'', ''b''), [(''c'', 1 / 2), (''d'', 1 / 2)]), ((''b'', ''c''), [(''a'', 1)]),
         ((''c'', ''a''), [(''b'', 1)])]
        3 (\<lambda>_. 0) = Inl KeyError"
  by code_simp

text \<open>
  In general: a pair of seed words that is no key of the trigram model makes the call
  fail, whatever the bigram model holds; and in a successful call for three words or more,
  the third word of the output is drawn for the context made of the second seed word and
  the first, dropped, sample.
\<close>

lemma random_trigram_text_unseen_seed:
  "\<not> has_key trigrams (first_word, second_word) \<Longrightarrow>
   random_trigram_text first_word second_word bigrams trigrams num_words rnd = Inl KeyError"
  by (simp add: random_trigram_text_def dict_get_def has_key_def)

lemma trigram_words_loop_prefix:
  "trigram_words_loop bigrams trigrams rnd k n f s w acc = Inr ws \<Longrightarrow>
   take (length acc) ws = acc"
proof (induction n arbitrary: k f s w acc)
  case 0
  then show ?case by simp
next
  case (Suc n)
  then obtain w' where
    "trigram_words_loop bigrams trigrams rnd (Suc k) n s w w' (acc @ [w']) = Inr ws"
    by (auto split: sum.splits)
  then have "take (length (acc @ [w'])) ws = acc @ [w']"
    by (rule Suc.IH)
  then have "take (length acc) (take (length (acc @ [w'])) ws) = take (length acc) (acc @ [w'])"
    by simp
  then show ?case
    by (simp add: min_def)
qed

lemma random_trigram_words_third:
  assumes "random_trigram_words first_word second_word bigrams trigrams num_words rnd = Inr ws"
    and "3 \<le> num_words"
  shows "\<exists>distr w0. map_of trigrams (first_word, second_word) = Some distr
           \<and> select_random distr (rnd 0) = Inr w0
           \<and> take 2 ws = [first_word, second_word]
           \<and> trigram_next bigrams trigrams second_word w0 (rnd 1) = Inr (ws ! 2)"
proof -
  obtain n where n: "nat (num_words - 2) = Suc n"
    using assms(2) by (cases "nat (num_words - 2)") auto
  obtain distr where d: "map_of trigrams (first_word, second_word) = Some distr"
    using assms(1) by (auto simp: random_trigram_words_def dict_get_def split: option.splits)
  obtain w0 where w0: "select_random distr (rnd 0) = Inr w0"
    using assms(1) d by (auto simp: random_trigram_words_def dict_get_def split: sum.splits)
  have loop: "trigram_words_loop bigrams trigrams rnd (Suc 0) (Suc n) first_word second_word w0
        [first_word, second_word] = Inr ws"
    using assms(1) d w0 n by (simp add: random_trigram_words_def dict_get_def)
  then obtain w1 where w1: "trigram_next bigrams trigrams second_word w0 (rnd (Suc 0)) = Inr w1"
    and rest: "trigram_words_loop bigrams trigrams rnd (Suc (Suc 0)) n second_word w0 w1
        [first_word, second_word, w1] = Inr ws"
    by (auto split: sum.splits)
  have "take 3 ws = [first_word, second_word, w1]"
    using trigram_words_loop_prefix [OF rest] by (simp add: numeral_3_eq_3)
  then have "take 2 (take 3 ws) = [first_word, second_word] \<and> take 3 ws ! 2 = w1"
    by simp
  then have "take 2 ws = [first_word, second_word] \<and> ws ! 2 = w1"
    by (simp add: min_def)
  then show ?thesis
    using d w0 w1 by simp
qed

end
